theory Spec2Isabelle
  imports Main "HOL-Library.Word"
begin

unbundle bit_operations_syntax

section \<open>The deferred executor table of quantum/deferred\_exec.c\<close>

text \<open>
  The file is modelled in its default configuration: \<open>MAX_DEFERRED_EXECUTORS\<close> is 4, so
  \<open>free_executors_t\<close> is \<open>uint8_t\<close> and \<open>MAX_TOKEN_VALUE\<close> is 256. The three file-level
  variables form the state record. \<open>timer_read32()\<close> is an argument \<open>now\<close> of every
  operation that reads the clock.

  A callback is a function pointer; \<open>None\<close> is \<open>NULL\<close>. A callback takes the trigger
  time and the argument pointer and returns the next delay. It may change memory of its
  own, the world \<open>'w\<close>, which is threaded through a pass of the task; a callback that calls
  back into this file is outside the model. The argument pointer is an address, 0 being
  \<open>NULL\<close>.

  The basic API (\<open>defer_exec\<close>, \<open>extend_deferred_exec\<close>, \<open>cancel_deferred_exec\<close>,
  \<open>deferred_exec_task\<close>) only forwards to the four static functions modelled here.
\<close>

type_synonym u8 = "8 word"
type_synonym u32 = "32 word"
type_synonym free_executors_t = u8

text \<open>
  Modelled from the spec: \<open>deferred_exec.h\<close> is not part of the sources. The token type
  is taken as \<open>uint8_t\<close> (the comment above the advanced API bounds tokens by the bit
  size of the bitmap type, 256 values), and the invalid token as 0 (the same comment
  reserves the value 0 for it).
\<close>

type_synonym deferred_token = u8

definition INVALID_DEFERRED_TOKEN :: deferred_token where
  "INVALID_DEFERRED_TOKEN = 0"

text \<open>
  Modelled from the spec: \<open>timer.h\<close> is not part of the sources. \<open>TIMER_DIFF_32(a, b)\<close>
  is the wrapping 32-bit difference; the callers cast it to \<open>int32_t\<close>, here \<open>sint\<close>.
\<close>

definition TIMER_DIFF_32 :: "u32 \<Rightarrow> u32 \<Rightarrow> u32" where
  "TIMER_DIFF_32 a b = a - b"

definition MAX_DEFERRED_EXECUTORS :: nat where
  "MAX_DEFERRED_EXECUTORS = 4"

definition MAX_TOKEN_VALUE :: nat where
  "MAX_TOKEN_VALUE = 256"

type_synonym 'w deferred_exec_callback = "u32 \<Rightarrow> nat \<Rightarrow> 'w \<Rightarrow> u32 \<times> 'w"

record 'w deferred_executor_t =
  token :: deferred_token
  trigger_time :: u32
  callback :: "'w deferred_exec_callback option"
  cb_arg :: nat

record 'w table =
  last_deferred_exec_check :: u32
  basic_executors :: "'w deferred_executor_t list"
  basic_executors_free :: free_executors_t

text \<open>The static initialisers: every field of every entry is zero, the bitmap is zero.\<close>

definition zero_executor :: "'w deferred_executor_t" where
  "zero_executor = \<lparr>token = 0, trigger_time = 0, callback = None, cb_arg = 0\<rparr>"

definition initial_table :: "'w table" where
  "initial_table =
     \<lparr>last_deferred_exec_check = 0,
      basic_executors = replicate MAX_DEFERRED_EXECUTORS zero_executor,
      basic_executors_free = 0\<rparr>"

text \<open>
  What C leaves undefined is an error value of the model: an array access outside
  \<open>basic_executors\<close>, and a call through a \<open>NULL\<close> function pointer.
\<close>

datatype error = OutOfBounds | NullCallback

subsection \<open>\<open>defer_exec_advanced\<close>\<close>

text \<open>
  Lines 92 to 101: the token of entry \<open>i\<close> is incremented (in \<open>uint8_t\<close>), and compared
  as an \<open>int\<close> with the last value of band \<open>i\<close>; at or above it the token restarts at the
  band's first value, or at 1 where that is the invalid token.
\<close>

definition new_token :: "nat \<Rightarrow> deferred_token \<Rightarrow> deferred_token" where
  "new_token i t =
     (let t1 = t + 1 in
      if unat t1 \<ge> i * (MAX_TOKEN_VALUE div MAX_DEFERRED_EXECUTORS)
                      + (MAX_TOKEN_VALUE div MAX_DEFERRED_EXECUTORS) - 1
      then (let t2 = (of_nat (i * (MAX_TOKEN_VALUE div MAX_DEFERRED_EXECUTORS)) :: deferred_token)
            in if t2 = INVALID_DEFERRED_TOKEN then INVALID_DEFERRED_TOKEN + 1 else t2)
      else t1)"

text \<open>Lines 88 to 107: slot \<open>i\<close> is claimed. The result is the token and the new table.\<close>

definition claim :: "'w table \<Rightarrow> u32 \<Rightarrow> u32 \<Rightarrow> 'w deferred_exec_callback option \<Rightarrow> nat \<Rightarrow> nat
    \<Rightarrow> deferred_token \<times> 'w table" where
  "claim s now delay_ms cb arg i =
     (let entry = basic_executors s ! i;
          entry' = entry\<lparr>token := new_token i (token entry),
                         trigger_time := now + delay_ms,
                         callback := cb,
                         cb_arg := arg\<rparr>
      in (token entry',
          s\<lparr>basic_executors_free := basic_executors_free s OR push_bit i 1,
            basic_executors := (basic_executors s)[i := entry']\<rparr>))"

text \<open>
  The \<open>for\<close> loop of lines 86 to 110, with its local copy \<open>free\<close> of the bitmap. The index
  stays below \<open>MAX_DEFERRED_EXECUTORS\<close>, the declared size of the array.
\<close>

function defer_exec_loop :: "'w table \<Rightarrow> u32 \<Rightarrow> u32 \<Rightarrow> 'w deferred_exec_callback option \<Rightarrow> nat
    \<Rightarrow> free_executors_t \<Rightarrow> nat \<Rightarrow> deferred_token \<times> 'w table" where
  "defer_exec_loop s now delay_ms cb arg free i =
     (if i < MAX_DEFERRED_EXECUTORS then
        (if free AND 1 = 0 then claim s now delay_ms cb arg i
         else defer_exec_loop s now delay_ms cb arg (drop_bit 1 free) (i + 1))
      else (INVALID_DEFERRED_TOKEN, s))"
  by pat_completeness auto
termination
  by (relation "measure (\<lambda>(s, now, delay_ms, cb, arg, free, i). MAX_DEFERRED_EXECUTORS - i)") auto

declare defer_exec_loop.simps [simp del]

definition defer_exec_advanced :: "'w table \<Rightarrow> u32 \<Rightarrow> u32 \<Rightarrow> 'w deferred_exec_callback option \<Rightarrow> nat
    \<Rightarrow> deferred_token \<times> 'w table" where
  "defer_exec_advanced s now delay_ms cb arg =
     (if delay_ms = 0 \<or> cb = None then (INVALID_DEFERRED_TOKEN, s)
      else defer_exec_loop s now delay_ms cb arg (basic_executors_free s) 0)"

subsection \<open>\<open>extend_deferred_exec_advanced\<close> and \<open>cancel_deferred_exec_advanced\<close>\<close>

text \<open>
  \<open>uint8_t index = token / (MAX_TOKEN_VALUE / MAX_DEFERRED_EXECUTORS)\<close>, then the
  entry at that index is read with no check of the index.
\<close>

definition token_index :: "deferred_token \<Rightarrow> nat" where
  "token_index tok = unat tok div (MAX_TOKEN_VALUE div MAX_DEFERRED_EXECUTORS)"

definition extend_deferred_exec_advanced :: "'w table \<Rightarrow> u32 \<Rightarrow> deferred_token \<Rightarrow> u32
    \<Rightarrow> error + (bool \<times> 'w table)" where
  "extend_deferred_exec_advanced s now tok delay_ms =
     (if delay_ms = 0 \<or> tok = INVALID_DEFERRED_TOKEN then Inr (False, s)
      else
        (let index = token_index tok in
         if index < length (basic_executors s) then
           (let entry = basic_executors s ! index in
            if token entry = tok
            then Inr (True, s\<lparr>basic_executors :=
                       (basic_executors s)[index := entry\<lparr>trigger_time := now + delay_ms\<rparr>]\<rparr>)
            else Inr (False, s))
         else Inl OutOfBounds))"

definition cancel_deferred_exec_advanced :: "'w table \<Rightarrow> deferred_token \<Rightarrow> error + (bool \<times> 'w table)" where
  "cancel_deferred_exec_advanced s tok =
     (let index = token_index tok in
      if index < length (basic_executors s) then
        (let entry = basic_executors s ! index in
         if token entry = tok
         then Inr (True, s\<lparr>basic_executors :=
                    (basic_executors s)[index := entry\<lparr>callback := None, cb_arg := 0\<rparr>]\<rparr>)
         else Inr (False, s))
      else Inl OutOfBounds)"

subsection \<open>\<open>deferred_exec_advanced_task\<close>\<close>

text \<open>
  A pass keeps, beside the table and the world, a log of the calls it made: the index of
  the entry, the two arguments of the call and the delay the callback returned. The log
  is not program state; it is there to count calls.
\<close>

record call =
  call_index :: nat
  call_time :: u32
  call_arg :: nat
  call_result :: u32

type_synonym 'w pass = "'w table \<times> 'w \<times> call list"

text \<open>Lines 189 to 209: the body of the loop for an entry whose bit is set in \<open>free\<close>.\<close>

definition task_entry :: "u32 \<Rightarrow> nat \<Rightarrow> 'w pass \<Rightarrow> error + 'w pass" where
  "task_entry now i p =
     (case p of (s, w, log) \<Rightarrow>
        if i < length (basic_executors s) then
          (let entry = basic_executors s ! i in
           if token entry \<noteq> INVALID_DEFERRED_TOKEN
              \<and> sint (TIMER_DIFF_32 (trigger_time entry) now) \<le> 0
           then
             (case callback entry of
                None \<Rightarrow> Inl NullCallback
              | Some f \<Rightarrow>
                  (case f (trigger_time entry) (cb_arg entry) w of (delay_ms, w') \<Rightarrow>
                     let log' = log @ [\<lparr>call_index = i, call_time = trigger_time entry,
                                        call_arg = cb_arg entry, call_result = delay_ms\<rparr>]
                     in if delay_ms > 0
                        then Inr (s\<lparr>basic_executors := (basic_executors s)
                                     [i := entry\<lparr>trigger_time := trigger_time entry + delay_ms\<rparr>]\<rparr>,
                                  w', log')
                        else Inr (s\<lparr>basic_executors_free :=
                                       basic_executors_free s AND NOT (push_bit i 1),
                                     basic_executors := (basic_executors s)
                                       [i := entry\<lparr>callback := None, cb_arg := 0\<rparr>]\<rparr>,
                                  w', log')))
           else Inr (s, w, log))
        else Inl OutOfBounds)"

text \<open>The \<open>while (free != 0)\<close> loop of lines 187 to 213, on the local copy of the bitmap.\<close>

function task_loop :: "u32 \<Rightarrow> free_executors_t \<Rightarrow> nat \<Rightarrow> 'w pass \<Rightarrow> error + 'w pass" where
  "task_loop now free i p =
     (if free \<noteq> 0 then
        (case (if free AND 1 = 1 then task_entry now i p else Inr p) of
           Inl e \<Rightarrow> Inl e
         | Inr p' \<Rightarrow> task_loop now (drop_bit 1 free) (i + 1) p')
      else Inr p)"
  by pat_completeness auto
termination
proof (relation "measure (\<lambda>(now, free, i, p). unat free)")
  show "wf (measure (\<lambda>(now, free :: free_executors_t, i :: nat, p :: 'w pass). unat free))"
    by simp
next
  fix now :: u32 and free :: free_executors_t and i :: nat and p p' :: "'w pass"
  assume "free \<noteq> 0"
  then have "unat free \<noteq> 0"
    by (simp add: unat_eq_0)
  then have "unat free div 2 < unat free"
    by simp
  then show "((now, drop_bit 1 free, i + 1, p'), (now, free, i, p))
      \<in> measure (\<lambda>(now, free, i, p). unat free)"
    by (simp add: drop_bit_eq_div unat_div)
qed

declare task_loop.simps [simp del]

definition deferred_exec_advanced_task :: "'w table \<Rightarrow> 'w \<Rightarrow> u32 \<Rightarrow> error + 'w pass" where
  "deferred_exec_advanced_task s w now =
     (if sint (TIMER_DIFF_32 now (last_deferred_exec_check s)) > 0
      then task_loop now (basic_executors_free s) 0 (s\<lparr>last_deferred_exec_check := now\<rparr>, w, [])
      else Inr (s, w, []))"

subsection \<open>Reachable tables\<close>

text \<open>
  The tables the program can be in: the initial one, and what the four operations of the
  basic API make of a reachable table, for any arguments, clock value and world.
\<close>

inductive reachable :: "'w table \<Rightarrow> bool" where
  reach_initial: "reachable initial_table"
| reach_defer_exec: "reachable s \<Longrightarrow> reachable (snd (defer_exec_advanced s now delay_ms cb arg))"
| reach_extend: "reachable s \<Longrightarrow> extend_deferred_exec_advanced s now tok delay_ms = Inr (b, s')
    \<Longrightarrow> reachable s'"
| reach_cancel: "reachable s \<Longrightarrow> cancel_deferred_exec_advanced s tok = Inr (b, s') \<Longrightarrow> reachable s'"
| reach_task: "reachable s \<Longrightarrow> deferred_exec_advanced_task s w now = Inr (s', w', log) \<Longrightarrow> reachable s'"

text \<open>
  The invariant behind the results on reachable tables: the array has its declared size,
  the token of entry \<open>i\<close> is below the last value of band \<open>i\<close>, and the bitmap has no bit
  at or above \<open>MAX_DEFERRED_EXECUTORS\<close>.
\<close>

definition table_inv :: "'w table \<Rightarrow> bool" where
  "table_inv s \<longleftrightarrow>
     length (basic_executors s) = MAX_DEFERRED_EXECUTORS
     \<and> (\<forall>i<MAX_DEFERRED_EXECUTORS. unat (token (basic_executors s ! i))
            < i * (MAX_TOKEN_VALUE div MAX_DEFERRED_EXECUTORS)
              + (MAX_TOKEN_VALUE div MAX_DEFERRED_EXECUTORS) - 1)
     \<and> (\<forall>i. bit (basic_executors_free s) i \<longrightarrow> i < MAX_DEFERRED_EXECUTORS)"

subsection \<open>Notions used in the statements\<close>

text \<open>
  The test of line 192 on an entry: its token is not the invalid one and the signed
  difference between its trigger time and the clock is not positive.
\<close>

definition is_due :: "u32 \<Rightarrow> 'w deferred_executor_t \<Rightarrow> bool" where
  "is_due now e \<longleftrightarrow>
     token e \<noteq> INVALID_DEFERRED_TOKEN \<and> sint (TIMER_DIFF_32 (trigger_time e) now) \<le> 0"

text \<open>The calls a pass made through entry \<open>i\<close>, in order.\<close>

definition calls_of :: "nat \<Rightarrow> call list \<Rightarrow> call list" where
  "calls_of i log = filter (\<lambda>c. call_index c = i) log"

text \<open>
  What the visit of a due entry \<open>e\<close> at index \<open>i\<close> leaves there, the callback having
  returned \<open>d\<close>: the entry re-armed with \<open>d\<close> added to its trigger time and its bit as it
  was, or, for \<open>d = 0\<close>, the entry with callback and argument cleared and its bit clear.
\<close>

definition slot_fired :: "nat \<Rightarrow> 'w deferred_executor_t \<Rightarrow> u32 \<Rightarrow> 'w table \<Rightarrow> 'w table \<Rightarrow> bool" where
  "slot_fired i e d s s' \<longleftrightarrow>
     (if d > 0
      then basic_executors s' ! i = e\<lparr>trigger_time := trigger_time e + d\<rparr>
        \<and> bit (basic_executors_free s') i = bit (basic_executors_free s) i
      else basic_executors s' ! i = e\<lparr>callback := None, cb_arg := 0\<rparr>
        \<and> \<not> bit (basic_executors_free s') i)"

text \<open>Two passes that agree on entry \<open>i\<close>, its bit, its calls and the size of the array.\<close>

definition same_slot :: "nat \<Rightarrow> 'w pass \<Rightarrow> 'w pass \<Rightarrow> bool" where
  "same_slot i p q \<longleftrightarrow>
     basic_executors (fst q) ! i = basic_executors (fst p) ! i
     \<and> bit (basic_executors_free (fst q)) i = bit (basic_executors_free (fst p)) i
     \<and> calls_of i (snd (snd q)) = calls_of i (snd (snd p))
     \<and> length (basic_executors (fst q)) = length (basic_executors (fst p))"

subsection \<open>Example runs\<close>

text \<open>
  A callback that returns its argument as the next delay and counts its calls in the
  world, and the tables after one and after two bookings of it on the initial table.
\<close>

definition period_cb :: "nat deferred_exec_callback" where
  "period_cb t a w = (of_nat a, Suc w)"

definition booked1 :: "nat table" where
  "booked1 = snd (defer_exec_advanced initial_table 0 10 (Some period_cb) 0)"

definition booked2 :: "nat table" where
  "booked2 = snd (defer_exec_advanced booked1 0 10 (Some period_cb) 0)"

text \<open>The table after four bookings: every slot is occupied.\<close>

definition booked4 :: "nat table" where
  "booked4 = snd (defer_exec_advanced (snd (defer_exec_advanced booked2 0 10 (Some period_cb) 0))
     0 10 (Some period_cb) 0)"

text \<open>The first booking, token 1, cancelled.\<close>

definition cancelled1 :: "nat table" where
  "cancelled1 = snd (projr (cancel_deferred_exec_advanced booked1 1))"

text \<open>
  The two bookings with token 1 cancelled: the token's index is 0, so it is the callback
  of slot 0 that is cleared, and slot 1 keeps its callback.
\<close>

definition cancelled2 :: "nat table" where
  "cancelled2 = snd (projr (cancel_deferred_exec_advanced booked2 1))"

text \<open>The first booking after the pass of the task at time 10, in which it fires.\<close>

definition fired1 :: "nat table" where
  "fired1 = fst (projr (deferred_exec_advanced_task booked1 0 10))"

text \<open>
  A booking with argument 7, so that the callback asks to be called again after 7 ms,
  and the table after the pass at time 10.
\<close>

definition periodic1 :: "nat table" where
  "periodic1 = snd (defer_exec_advanced initial_table 0 10 (Some period_cb) 7)"

definition rearmed1 :: "nat table" where
  "rearmed1 = fst (projr (deferred_exec_advanced_task periodic1 0 10))"

section \<open>Properties\<close>

lemmas config_defs = MAX_DEFERRED_EXECUTORS_def MAX_TOKEN_VALUE_def INVALID_DEFERRED_TOKEN_def

lemma initial_table_entries:
  "initial_table =
     \<lparr>last_deferred_exec_check = 0,
      basic_executors = [zero_executor, zero_executor, zero_executor, zero_executor],
      basic_executors_free = 0\<rparr>"
  by (simp add: initial_table_def MAX_DEFERRED_EXECUTORS_def numeral_eq_Suc)

lemmas run_defs = defer_exec_advanced_def defer_exec_loop.simps claim_def new_token_def
  initial_table_entries zero_executor_def cancel_deferred_exec_advanced_def extend_deferred_exec_advanced_def
  token_index_def deferred_exec_advanced_task_def task_loop.simps task_entry_def TIMER_DIFF_32_def
  period_cb_def Let_def

subsection \<open>Bits of the bitmap\<close>

lemma and_one_bit0: "(w AND 1 = 0) = (\<not> bit w 0)" for w :: u8
  by (simp add: and_one_eq bit_0 mod_2_eq_odd)

lemma and_one_bit1: "(w AND 1 = 1) = bit w 0" for w :: u8
  by (simp add: and_one_eq bit_0 mod_2_eq_odd)

lemma drop_bit_bit0: "bit (drop_bit i F) 0 = bit F i" for F :: u8
  by (simp add: bit_drop_bit_eq)

lemma bit_set_slot: "bit (F OR 2 ^ k) i \<longleftrightarrow> bit F i \<or> (i = k \<and> k < 8)" for F :: u8
  by (auto simp: bit_or_iff bit_push_bit_iff bit_exp_iff bit_1_iff)

lemma bit_clear_slot: "bit (F AND NOT (2 ^ k)) i \<longleftrightarrow> bit F i \<and> i \<noteq> k" for F :: u8
  by (auto simp: bit_and_iff bit_not_iff bit_push_bit_iff bit_exp_iff bit_1_iff dest: bit_imp_le_length)

subsection \<open>Tokens\<close>

lemma token_index_lt: "token_index tok < MAX_DEFERRED_EXECUTORS"
proof -
  have "unat tok < 256"
    using unsigned_less [of tok] by simp
  then show ?thesis
    by (simp add: token_index_def config_defs)
qed

lemma new_token_bound:
  assumes "i < MAX_DEFERRED_EXECUTORS"
  shows "unat (new_token i t) < i * (MAX_TOKEN_VALUE div MAX_DEFERRED_EXECUTORS)
    + (MAX_TOKEN_VALUE div MAX_DEFERRED_EXECUTORS) - 1"
proof -
  from assms have "i = 0 \<or> i = 1 \<or> i = 2 \<or> i = 3"
    by (auto simp: config_defs)
  then show ?thesis
    by (auto simp: new_token_def config_defs Let_def)
qed

lemma new_token_valid:
  assumes "i < MAX_DEFERRED_EXECUTORS"
    and "unat t < i * (MAX_TOKEN_VALUE div MAX_DEFERRED_EXECUTORS)
      + (MAX_TOKEN_VALUE div MAX_DEFERRED_EXECUTORS) - 1"
  shows "new_token i t \<noteq> INVALID_DEFERRED_TOKEN"
proof -
  from assms(1) have i: "i = 0 \<or> i = 1 \<or> i = 2 \<or> i = 3"
    by (auto simp: config_defs)
  from assms have "unat t < 255"
    by (auto simp: config_defs)
  then have "unat (t + 1) = unat t + 1"
    by (simp add: unat_word_ariths)
  then have "t + 1 \<noteq> 0"
    by (auto simp: unat_eq_0 [symmetric] simp del: unat_eq_0)
  with i show ?thesis
    by (auto simp: new_token_def config_defs Let_def)
qed

subsection \<open>The loop of \<open>defer_exec_advanced\<close>\<close>

text \<open>
  The loop claims the first index at or after its position whose bit is clear, and claims
  nothing when every bit up to \<open>MAX_DEFERRED_EXECUTORS\<close> is set.
\<close>

lemma defer_exec_loop_claims:
  assumes "i \<le> k" and "k < MAX_DEFERRED_EXECUTORS" and "\<not> bit F k"
    and "\<forall>j. i \<le> j \<and> j < k \<longrightarrow> bit F j"
  shows "defer_exec_loop s now delay_ms cb arg (drop_bit i F) i = claim s now delay_ms cb arg k"
  using assms
proof (induction "k - i" arbitrary: i)
  case 0
  then have "i = k" by simp
  with 0 show ?case
    by (simp add: defer_exec_loop.simps [of _ _ _ _ _ _ k] and_one_bit0 drop_bit_bit0)
next
  case (Suc n)
  then have lt: "i < k" and bi: "bit F i"
    by auto
  from Suc have "defer_exec_loop s now delay_ms cb arg (drop_bit (Suc i) F) (Suc i)
      = claim s now delay_ms cb arg k"
    by (intro Suc.hyps(1)) auto
  with lt bi Suc.prems show ?case
    by (simp add: defer_exec_loop.simps [of _ _ _ _ _ _ i] and_one_bit0 drop_bit_bit0)
qed

lemma defer_exec_loop_full:
  assumes "\<forall>j. i \<le> j \<and> j < MAX_DEFERRED_EXECUTORS \<longrightarrow> bit F j"
  shows "defer_exec_loop s now delay_ms cb arg (drop_bit i F) i = (INVALID_DEFERRED_TOKEN, s)"
  using assms
proof (induction "MAX_DEFERRED_EXECUTORS - i" arbitrary: i)
  case 0
  then show ?case
    by (simp add: defer_exec_loop.simps [of _ _ _ _ _ _ i])
next
  case (Suc n)
  then have lt: "i < MAX_DEFERRED_EXECUTORS" and bi: "bit F i"
    by auto
  from Suc have "defer_exec_loop s now delay_ms cb arg (drop_bit (Suc i) F) (Suc i)
      = (INVALID_DEFERRED_TOKEN, s)"
    by (intro Suc.hyps(1)) auto
  with lt bi show ?case
    by (simp add: defer_exec_loop.simps [of _ _ _ _ _ _ i] and_one_bit0 drop_bit_bit0)
qed

subsection \<open>The loop of the task\<close>

lemma task_loop_done: "task_loop now 0 i p = Inr p"
  by (simp add: task_loop.simps [of now 0])

lemma task_loop_skip:
  "free \<noteq> 0 \<Longrightarrow> \<not> bit free 0
    \<Longrightarrow> task_loop now free i p = task_loop now (drop_bit 1 free) (i + 1) p"
  by (subst task_loop.simps) (simp add: and_one_bit1)

lemma task_loop_visit:
  "bit free 0 \<Longrightarrow> task_loop now free i p =
     (case task_entry now i p of Inl e \<Rightarrow> Inl e
      | Inr p' \<Rightarrow> task_loop now (drop_bit 1 free) (i + 1) p')"
  by (subst task_loop.simps) (auto simp: and_one_bit1)

text \<open>What every visit of an entry keeps, the whole loop keeps.\<close>

lemma task_loop_preserves:
  assumes "P p" and "task_loop now free i p = Inr p'"
    and "\<And>j p p'. i \<le> j \<Longrightarrow> P p \<Longrightarrow> task_entry now j p = Inr p' \<Longrightarrow> P p'"
  shows "P p'"
  using assms
proof (induction now free i p arbitrary: p' rule: task_loop.induct)
  case (1 now free i p)
  note step = "1.prems"(3)
  have later: "P q'" if "i + 1 \<le> j" and "P q" and "task_entry now j q = Inr q'" for j q q'
    using step [of j q q'] that by simp
  show ?case
  proof (cases "free = 0")
    case True
    with "1.prems" show ?thesis
      by (simp add: task_loop_done)
  next
    case False
    show ?thesis
    proof (cases "bit free 0")
      case True
      with "1.prems"(2) obtain q where q: "task_entry now i p = Inr q"
        and rest: "task_loop now (drop_bit 1 free) (i + 1) q = Inr p'"
        by (auto simp: task_loop_visit split: sum.splits)
      from step [OF le_refl "1.prems"(1) q] have "P q" .
      with "1.IH" [OF False _ _ rest later] True q show ?thesis
        by (simp add: and_one_bit1)
    next
      case odd: False
      with False "1.prems"(2) have rest: "task_loop now (drop_bit 1 free) (i + 1) p = Inr p'"
        by (simp add: task_loop_skip)
      with "1.IH" [OF False _ _ rest later] odd "1.prems"(1) show ?thesis
        by (simp add: and_one_bit1)
    qed
  qed
qed

lemma task_entry_last_check:
  "task_entry now i p = Inr p'
    \<Longrightarrow> last_deferred_exec_check (fst p') = last_deferred_exec_check (fst p)"
  by (auto simp: task_entry_def Let_def split: prod.splits if_splits option.splits)

lemma task_loop_last_check:
  assumes "task_loop now free i p = Inr p'"
  shows "last_deferred_exec_check (fst p') = last_deferred_exec_check (fst p)"
  by (rule task_loop_preserves
      [where P = "\<lambda>q. last_deferred_exec_check (fst q) = last_deferred_exec_check (fst p)",
        OF _ assms])
    (simp_all add: task_entry_last_check)

subsection \<open>The invariant of reachable tables\<close>

lemma claim_inv:
  assumes "table_inv s" and "k < MAX_DEFERRED_EXECUTORS"
  shows "table_inv (snd (claim s now delay_ms cb arg k))"
  using assms new_token_bound [OF assms(2)]
  by (auto simp: table_inv_def claim_def Let_def nth_list_update bit_set_slot)

lemma defer_exec_cases:
  "defer_exec_advanced s now delay_ms cb arg = (INVALID_DEFERRED_TOKEN, s)
     \<and> (delay_ms = 0 \<or> cb = None \<or> (\<forall>j<MAX_DEFERRED_EXECUTORS. bit (basic_executors_free s) j))
   \<or> delay_ms \<noteq> 0 \<and> cb \<noteq> None
     \<and> (\<exists>k<MAX_DEFERRED_EXECUTORS. \<not> bit (basic_executors_free s) k
          \<and> (\<forall>j<k. bit (basic_executors_free s) j)
          \<and> defer_exec_advanced s now delay_ms cb arg = claim s now delay_ms cb arg k)"
proof (cases "delay_ms = 0 \<or> cb = None")
  case True
  then show ?thesis
    by (auto simp: defer_exec_advanced_def)
next
  case False
  let ?F = "basic_executors_free s"
  show ?thesis
  proof (cases "\<forall>j<MAX_DEFERRED_EXECUTORS. bit ?F j")
    case True
    then have "defer_exec_loop s now delay_ms cb arg (drop_bit 0 ?F) 0
        = (INVALID_DEFERRED_TOKEN, s)"
      by (intro defer_exec_loop_full) simp
    with True show ?thesis
      by (simp add: defer_exec_advanced_def)
  next
    case some: False
    define k where "k = (LEAST j. \<not> bit ?F j)"
    from some obtain j0 where j0: "j0 < MAX_DEFERRED_EXECUTORS" "\<not> bit ?F j0"
      by auto
    from j0(2) have nk: "\<not> bit ?F k"
      unfolding k_def by (rule LeastI)
    from j0(2) have "k \<le> j0"
      unfolding k_def by (rule Least_le)
    with j0(1) have kb: "k < MAX_DEFERRED_EXECUTORS"
      by simp
    have below: "\<forall>j<k. bit ?F j"
      using not_less_Least k_def by blast
    from False have args: "delay_ms \<noteq> 0" "cb \<noteq> None"
      by simp_all
    from kb nk below have "defer_exec_loop s now delay_ms cb arg (drop_bit 0 ?F) 0
        = claim s now delay_ms cb arg k"
      by (intro defer_exec_loop_claims) simp_all
    with args have "defer_exec_advanced s now delay_ms cb arg = claim s now delay_ms cb arg k"
      by (auto simp: defer_exec_advanced_def)
    with args kb nk below show ?thesis
      by blast
  qed
qed

lemma defer_exec_inv:
  assumes "table_inv s"
  shows "table_inv (snd (defer_exec_advanced s now delay_ms cb arg))"
  using defer_exec_cases [of s now delay_ms cb arg] assms
  by (auto simp: claim_inv)

lemma extend_inv:
  "table_inv s \<Longrightarrow> extend_deferred_exec_advanced s now tok delay_ms = Inr (b, s') \<Longrightarrow> table_inv s'"
  by (auto simp: extend_deferred_exec_advanced_def table_inv_def Let_def nth_list_update split: if_splits)

lemma cancel_inv:
  "table_inv s \<Longrightarrow> cancel_deferred_exec_advanced s tok = Inr (b, s') \<Longrightarrow> table_inv s'"
  by (auto simp: cancel_deferred_exec_advanced_def table_inv_def Let_def nth_list_update split: if_splits)

lemma task_entry_inv:
  "table_inv (fst p) \<Longrightarrow> task_entry now i p = Inr p' \<Longrightarrow> table_inv (fst p')"
  by (auto simp: task_entry_def table_inv_def Let_def nth_list_update bit_clear_slot
      split: prod.splits if_splits option.splits)

lemma task_inv:
  assumes "table_inv s" and "deferred_exec_advanced_task s w now = Inr (s', w', log)"
  shows "table_inv s'"
proof (cases "sint (TIMER_DIFF_32 now (last_deferred_exec_check s)) > 0")
  case True
  with assms(2) have run: "task_loop now (basic_executors_free s) 0
      (s\<lparr>last_deferred_exec_check := now\<rparr>, w, []) = Inr (s', w', log)"
    by (simp add: deferred_exec_advanced_task_def)
  from assms(1) have "table_inv (fst (s\<lparr>last_deferred_exec_check := now\<rparr>, w, []))"
    by (simp add: table_inv_def)
  from task_loop_preserves [where P = "\<lambda>q. table_inv (fst q)", OF this run]
  show ?thesis
    by (simp add: task_entry_inv)
next
  case False
  with assms show ?thesis
    by (simp add: deferred_exec_advanced_task_def)
qed

lemma initial_table_inv: "table_inv initial_table"
  by (simp add: table_inv_def initial_table_def zero_executor_def config_defs)

lemma reachable_inv: "reachable s \<Longrightarrow> table_inv s"
proof (induction rule: reachable.induct)
  case reach_initial
  show ?case by (rule initial_table_inv)
next
  case (reach_defer_exec s now delay_ms cb arg)
  then show ?case by (simp add: defer_exec_inv)
next
  case (reach_extend s now tok delay_ms b s')
  then show ?case by (blast intro: extend_inv)
next
  case (reach_cancel s tok b s')
  then show ?case by (blast intro: cancel_inv)
next
  case (reach_task s w now s' w' log)
  then show ?case by (blast intro: task_inv)
qed

subsection \<open>Evaluating the example runs\<close>

lemma booked1_entries:
  "booked1 = \<lparr>last_deferred_exec_check = 0,
     basic_executors = [\<lparr>token = 1, trigger_time = 10, callback = Some period_cb, cb_arg = 0\<rparr>,
       zero_executor, zero_executor, zero_executor],
     basic_executors_free = 1\<rparr>"
  by (simp add: booked1_def run_defs config_defs)

lemma booked1_free: "basic_executors_free booked1 = 1"
  by (simp add: booked1_def run_defs config_defs)

lemma booked1_reachable: "reachable booked1"
  unfolding booked1_def by (rule reach_defer_exec [OF reach_initial])

lemma booked2_entries:
  "booked2 = \<lparr>last_deferred_exec_check = 0,
     basic_executors = [\<lparr>token = 1, trigger_time = 10, callback = Some period_cb, cb_arg = 0\<rparr>,
       \<lparr>token = 1, trigger_time = 10, callback = Some period_cb, cb_arg = 0\<rparr>,
       zero_executor, zero_executor],
     basic_executors_free = 3\<rparr>"
  by (simp add: booked2_def booked1_entries defer_exec_advanced_def defer_exec_loop.simps claim_def
      new_token_def zero_executor_def Let_def config_defs)

lemma booked2_reachable: "reachable booked2"
  unfolding booked2_def by (rule reach_defer_exec [OF booked1_reachable])

lemma cancelled1_entries:
  "cancelled1 = \<lparr>last_deferred_exec_check = 0,
     basic_executors = [\<lparr>token = 1, trigger_time = 10, callback = None, cb_arg = 0\<rparr>,
       zero_executor, zero_executor, zero_executor],
     basic_executors_free = 1\<rparr>"
  by (simp add: cancelled1_def booked1_entries cancel_deferred_exec_advanced_def token_index_def Let_def config_defs)

lemma cancelled1_reachable: "reachable cancelled1"
proof (rule reach_cancel [OF booked1_reachable])
  show "cancel_deferred_exec_advanced booked1 1 = Inr (True, cancelled1)"
    by (simp add: cancelled1_entries booked1_entries cancel_deferred_exec_advanced_def token_index_def
        Let_def config_defs)
qed

lemma cancelled2_entries:
  "cancelled2 = \<lparr>last_deferred_exec_check = 0,
     basic_executors = [\<lparr>token = 1, trigger_time = 10, callback = None, cb_arg = 0\<rparr>,
       \<lparr>token = 1, trigger_time = 10, callback = Some period_cb, cb_arg = 0\<rparr>,
       zero_executor, zero_executor],
     basic_executors_free = 3\<rparr>"
  by (simp add: cancelled2_def booked2_entries cancel_deferred_exec_advanced_def token_index_def
      Let_def config_defs)

lemma booked2_cancel: "cancel_deferred_exec_advanced booked2 1 = Inr (True, cancelled2)"
  by (simp add: cancelled2_entries booked2_entries cancel_deferred_exec_advanced_def
      token_index_def Let_def config_defs)

lemma cancelled2_reachable: "reachable cancelled2"
  by (rule reach_cancel [OF booked2_reachable booked2_cancel])

lemma booked1_task:
  "deferred_exec_advanced_task booked1 0 10 =
     Inr (\<lparr>last_deferred_exec_check = 10,
            basic_executors = [\<lparr>token = 1, trigger_time = 10, callback = None, cb_arg = 0\<rparr>,
              zero_executor, zero_executor, zero_executor],
            basic_executors_free = 0\<rparr>,
          1, [\<lparr>call_index = 0, call_time = 10, call_arg = 0, call_result = 0\<rparr>])"
  by (simp add: booked1_entries deferred_exec_advanced_task_def task_loop.simps task_entry_def
      TIMER_DIFF_32_def period_cb_def Let_def config_defs)

lemma fired1_entries:
  "fired1 = \<lparr>last_deferred_exec_check = 10,
     basic_executors = [\<lparr>token = 1, trigger_time = 10, callback = None, cb_arg = 0\<rparr>,
       zero_executor, zero_executor, zero_executor],
     basic_executors_free = 0\<rparr>"
  by (simp add: fired1_def booked1_task)

lemma periodic1_entries:
  "periodic1 = \<lparr>last_deferred_exec_check = 0,
     basic_executors = [\<lparr>token = 1, trigger_time = 10, callback = Some period_cb, cb_arg = 7\<rparr>,
       zero_executor, zero_executor, zero_executor],
     basic_executors_free = 1\<rparr>"
  by (simp add: periodic1_def run_defs config_defs)

lemma periodic1_reachable: "reachable periodic1"
  unfolding periodic1_def by (rule reach_defer_exec [OF reach_initial])

lemma periodic1_task:
  "deferred_exec_advanced_task periodic1 0 10 = Inr (rearmed1, 1,
     [\<lparr>call_index = 0, call_time = 10, call_arg = 7, call_result = 7\<rparr>])"
  by (simp add: rearmed1_def periodic1_entries deferred_exec_advanced_task_def task_loop.simps
      task_entry_def TIMER_DIFF_32_def period_cb_def Let_def config_defs)

lemma bit3_0: "bit (3 :: u8) 0"
  by simp

lemma bit3_1: "bit (3 :: u8) 1"
  by (simp add: bit_Suc)

lemma booked4_entries:
  "booked4 = \<lparr>last_deferred_exec_check = 0,
     basic_executors = [\<lparr>token = 1, trigger_time = 10, callback = Some period_cb, cb_arg = 0\<rparr>,
       \<lparr>token = 1, trigger_time = 10, callback = Some period_cb, cb_arg = 0\<rparr>,
       \<lparr>token = 1, trigger_time = 10, callback = Some period_cb, cb_arg = 0\<rparr>,
       \<lparr>token = 1, trigger_time = 10, callback = Some period_cb, cb_arg = 0\<rparr>],
     basic_executors_free = 15\<rparr>"
  by (simp add: booked4_def booked2_entries defer_exec_advanced_def defer_exec_loop.simps claim_def
      new_token_def zero_executor_def Let_def config_defs)

lemma booked4_reachable: "reachable booked4"
  unfolding booked4_def by (intro reach_defer_exec booked2_reachable)

lemma booked4_full: "\<forall>i<MAX_DEFERRED_EXECUTORS. bit (basic_executors_free booked4) i"
proof (intro allI impI)
  fix i assume "i < MAX_DEFERRED_EXECUTORS"
  then have "i = 0 \<or> i = 1 \<or> i = 2 \<or> i = 3"
    by (auto simp: config_defs)
  then show "bit (basic_executors_free booked4) i"
    by (auto simp: booked4_entries bit_Suc numeral_3_eq_3 numeral_2_eq_2)
qed

subsection \<open>Scheduling\<close>

lemma claim_token_valid:
  assumes "table_inv s" and "k < MAX_DEFERRED_EXECUTORS"
  shows "fst (claim s now delay_ms cb arg k) \<noteq> INVALID_DEFERRED_TOKEN"
  using assms new_token_valid [of k "token (basic_executors s ! k)"]
  by (simp add: claim_def Let_def table_inv_def)

lemma defer_exec_invalid_inv:
  assumes "table_inv s"
  shows "fst (defer_exec_advanced s now delay_ms cb arg) = INVALID_DEFERRED_TOKEN
    \<longleftrightarrow> delay_ms = 0 \<or> cb = None \<or> (\<forall>i<MAX_DEFERRED_EXECUTORS. bit (basic_executors_free s) i)"
  using defer_exec_cases [of s now delay_ms cb arg] claim_token_valid [OF assms]
  by auto

text \<open>
  C6. On a reachable table \<open>defer_exec_advanced\<close> returns the invalid token exactly when the
  delay is zero, the callback is absent, or the bit of every one of the
  \<open>MAX_DEFERRED_EXECUTORS\<close> slots is set; and whenever it returns the invalid token the
  table it leaves is the table it was given.
\<close>

theorem defer_exec_invalid_iff:
  assumes "reachable s"
  shows "(fst (defer_exec_advanced s now delay_ms cb arg) = INVALID_DEFERRED_TOKEN
      \<longleftrightarrow> delay_ms = 0 \<or> cb = None
          \<or> (\<forall>i<MAX_DEFERRED_EXECUTORS. bit (basic_executors_free s) i))
    \<and> (fst (defer_exec_advanced s now delay_ms cb arg) = INVALID_DEFERRED_TOKEN
      \<longrightarrow> snd (defer_exec_advanced s now delay_ms cb arg) = s)"
proof -
  from assms have inv: "table_inv s"
    by (rule reachable_inv)
  from defer_exec_cases [of s now delay_ms cb arg] claim_token_valid [OF inv]
  have "fst (defer_exec_advanced s now delay_ms cb arg) = INVALID_DEFERRED_TOKEN
      \<longrightarrow> snd (defer_exec_advanced s now delay_ms cb arg) = s"
    by auto
  with defer_exec_invalid_inv [OF inv] show ?thesis
    by blast
qed

theorem defer_exec_invalid_iff_witness:
  "reachable booked1 \<and> reachable booked4
   \<and> fst (defer_exec_advanced booked1 3 0 (Some period_cb) 0) = INVALID_DEFERRED_TOKEN
   \<and> snd (defer_exec_advanced booked1 3 0 (Some period_cb) 0) = booked1
   \<and> basic_executors_free booked4 = 15
   \<and> fst (defer_exec_advanced booked4 3 10 (Some period_cb) 0) = INVALID_DEFERRED_TOKEN
   \<and> snd (defer_exec_advanced booked4 3 10 (Some period_cb) 0) = booked4"
  using booked1_reachable booked4_reachable booked4_full
    defer_exec_invalid_iff [OF booked1_reachable, of 3 0 "Some period_cb" 0]
    defer_exec_invalid_iff [OF booked4_reachable, of 3 10 "Some period_cb" 0]
  by (simp add: booked4_entries)

text \<open>
  C7. On a reachable table, with a non-zero delay, a callback and \<open>k\<close> the lowest index
  whose bit is clear, \<open>defer_exec_advanced\<close> returns a token other than the invalid one; entry \<open>k\<close>
  then holds that token, the trigger time \<open>now + delay_ms\<close>, the callback and the
  argument, bit \<open>k\<close> is set, and no other entry or bit has changed.
\<close>

theorem defer_exec_claims_lowest:
  assumes "reachable s" and "delay_ms \<noteq> 0" and "cb \<noteq> None"
    and "k < MAX_DEFERRED_EXECUTORS" and "\<not> bit (basic_executors_free s) k"
    and "\<forall>j<k. bit (basic_executors_free s) j"
  shows "\<exists>tok s'. defer_exec_advanced s now delay_ms cb arg = (tok, s')
    \<and> tok \<noteq> INVALID_DEFERRED_TOKEN
    \<and> token (basic_executors s' ! k) = tok
    \<and> trigger_time (basic_executors s' ! k) = now + delay_ms
    \<and> callback (basic_executors s' ! k) = cb
    \<and> cb_arg (basic_executors s' ! k) = arg
    \<and> bit (basic_executors_free s') k
    \<and> (\<forall>j. j \<noteq> k \<longrightarrow> bit (basic_executors_free s') j = bit (basic_executors_free s) j)
    \<and> (\<forall>j. j \<noteq> k \<longrightarrow> basic_executors s' ! j = basic_executors s ! j)
    \<and> length (basic_executors s') = length (basic_executors s)
    \<and> last_deferred_exec_check s' = last_deferred_exec_check s"
proof -
  let ?F = "basic_executors_free s"
  from assms(1) have inv: "table_inv s"
    by (rule reachable_inv)
  from assms(4-6) have "defer_exec_loop s now delay_ms cb arg (drop_bit 0 ?F) 0
      = claim s now delay_ms cb arg k"
    by (intro defer_exec_loop_claims) simp_all
  with assms(2,3) have run: "defer_exec_advanced s now delay_ms cb arg = claim s now delay_ms cb arg k"
    by (auto simp: defer_exec_advanced_def)
  from inv assms(4) have len: "k < length (basic_executors s)" and k8: "k < 8"
    by (simp_all add: table_inv_def config_defs)
  from claim_token_valid [OF inv assms(4), of now delay_ms cb arg]
  have valid: "fst (claim s now delay_ms cb arg k) \<noteq> INVALID_DEFERRED_TOKEN" .
  obtain tok s' where c: "claim s now delay_ms cb arg k = (tok, s')"
    by (cases "claim s now delay_ms cb arg k")
  with valid have "tok \<noteq> INVALID_DEFERRED_TOKEN"
    by simp
  moreover from c len k8 have "token (basic_executors s' ! k) = tok"
    "trigger_time (basic_executors s' ! k) = now + delay_ms"
    "callback (basic_executors s' ! k) = cb"
    "cb_arg (basic_executors s' ! k) = arg"
    "bit (basic_executors_free s') k"
    "\<forall>j. j \<noteq> k \<longrightarrow> bit (basic_executors_free s') j = bit (basic_executors_free s) j"
    "\<forall>j. j \<noteq> k \<longrightarrow> basic_executors s' ! j = basic_executors s ! j"
    "length (basic_executors s') = length (basic_executors s)"
    "last_deferred_exec_check s' = last_deferred_exec_check s"
    by (auto simp: claim_def Let_def bit_set_slot)
  ultimately show ?thesis
    using run c by simp
qed

theorem defer_exec_claims_lowest_witness:
  "reachable booked1
   \<and> (10 :: u32) \<noteq> 0 \<and> Some period_cb \<noteq> None \<and> 1 < MAX_DEFERRED_EXECUTORS
   \<and> \<not> bit (basic_executors_free booked1) 1
   \<and> bit (basic_executors_free booked1) 0
   \<and> fst (defer_exec_advanced booked1 0 10 (Some period_cb) 0) \<noteq> INVALID_DEFERRED_TOKEN
   \<and> bit (basic_executors_free booked2) 1
   \<and> trigger_time (basic_executors booked2 ! 1) = 0 + 10
   \<and> callback (basic_executors booked2 ! 1) = Some period_cb"
proof -
  have h: "(10 :: u32) \<noteq> 0" "Some period_cb \<noteq> None" "1 < MAX_DEFERRED_EXECUTORS"
    "\<not> bit (basic_executors_free booked1) 1" "\<forall>j<1. bit (basic_executors_free booked1) j"
    by (simp_all add: booked1_free config_defs)
  from defer_exec_claims_lowest [OF booked1_reachable h, of 0 0] h booked1_reachable
  show ?thesis
    by (auto simp: booked2_def)
qed

subsection \<open>Extend\<close>

text \<open>
  C9. On the array of the declared size, extend with a non-zero delay and a token other
  than the invalid one that equals the token of the entry at the token's index returns
  true; that entry then has trigger time \<open>now + delay_ms\<close> and the callback, argument and
  token it had, and nothing else has changed. With a zero delay or the invalid token
  extend returns false and the table is unchanged.
\<close>

theorem extend_overwrites_trigger_time:
  assumes "length (basic_executors s) = MAX_DEFERRED_EXECUTORS"
  shows "(delay_ms \<noteq> 0 \<and> tok \<noteq> INVALID_DEFERRED_TOKEN
        \<and> token (basic_executors s ! token_index tok) = tok
      \<longrightarrow> (\<exists>s'. extend_deferred_exec_advanced s now tok delay_ms = Inr (True, s')
            \<and> trigger_time (basic_executors s' ! token_index tok) = now + delay_ms
            \<and> callback (basic_executors s' ! token_index tok)
                = callback (basic_executors s ! token_index tok)
            \<and> cb_arg (basic_executors s' ! token_index tok)
                = cb_arg (basic_executors s ! token_index tok)
            \<and> token (basic_executors s' ! token_index tok) = tok
            \<and> (\<forall>j. j \<noteq> token_index tok \<longrightarrow> basic_executors s' ! j = basic_executors s ! j)
            \<and> length (basic_executors s') = length (basic_executors s)
            \<and> basic_executors_free s' = basic_executors_free s
            \<and> last_deferred_exec_check s' = last_deferred_exec_check s))
    \<and> (delay_ms = 0 \<or> tok = INVALID_DEFERRED_TOKEN
      \<longrightarrow> extend_deferred_exec_advanced s now tok delay_ms = Inr (False, s))"
  using assms token_index_lt [of tok]
  by (auto simp: extend_deferred_exec_advanced_def Let_def)

theorem extend_overwrites_trigger_time_witness:
  "length (basic_executors booked1) = MAX_DEFERRED_EXECUTORS
   \<and> (5 :: u32) \<noteq> 0 \<and> (1 :: deferred_token) \<noteq> INVALID_DEFERRED_TOKEN
   \<and> token (basic_executors booked1 ! token_index 1) = 1
   \<and> extend_deferred_exec_advanced booked1 3 1 5
       = Inr (True, booked1\<lparr>basic_executors := (basic_executors booked1)
           [0 := (basic_executors booked1 ! 0)\<lparr>trigger_time := 8\<rparr>]\<rparr>)
   \<and> extend_deferred_exec_advanced booked1 3 1 0 = Inr (False, booked1)"
proof -
  have h: "length (basic_executors booked1) = MAX_DEFERRED_EXECUTORS"
    "(5 :: u32) \<noteq> 0" "(1 :: deferred_token) \<noteq> INVALID_DEFERRED_TOKEN"
    "token (basic_executors booked1 ! token_index 1) = 1"
    by (simp_all add: booked1_entries token_index_def config_defs)
  have run: "extend_deferred_exec_advanced booked1 3 1 5
       = Inr (True, booked1\<lparr>basic_executors := (basic_executors booked1)
           [0 := (basic_executors booked1 ! 0)\<lparr>trigger_time := 8\<rparr>]\<rparr>)"
    by (simp add: booked1_entries extend_deferred_exec_advanced_def token_index_def Let_def config_defs)
  from h run extend_overwrites_trigger_time [OF h(1), of 5 1 3]
    extend_overwrites_trigger_time [OF h(1), of 0 1 3]
  show ?thesis
    by simp
qed

subsection \<open>What extend and cancel return\<close>







subsection \<open>A pass of the task over a due entry\<close>

text \<open>
  The visit of an entry changes nothing at any other index; the loop from position \<open>k\<close>
  changes nothing below \<open>k\<close>.
\<close>

lemma same_slot_refl: "same_slot i p p"
  by (simp add: same_slot_def)

lemma same_slot_trans: "same_slot i p q \<Longrightarrow> same_slot i q r \<Longrightarrow> same_slot i p r"
  by (simp add: same_slot_def)

lemma task_entry_frame:
  "task_entry now j p = Inr q \<Longrightarrow> j \<noteq> i \<Longrightarrow> same_slot i p q"
  by (auto simp: task_entry_def same_slot_def calls_of_def Let_def bit_clear_slot
      split: prod.splits if_splits option.splits)

lemma task_loop_frame:
  assumes "task_loop now free k p = Inr p'" and "i < k"
  shows "same_slot i p p'"
proof (rule task_loop_preserves [where P = "same_slot i p", OF same_slot_refl assms(1)])
  fix j q q'
  assume "k \<le> j" and pq: "same_slot i p q" and "task_entry now j q = Inr q'"
  with assms(2) have "same_slot i q q'"
    by (intro task_entry_frame [of now j]) simp_all
  with pq show "same_slot i p q'"
    by (rule same_slot_trans)
qed

lemma task_loop_unfold:
  assumes "free \<noteq> 0" and "task_loop now free k p = Inr p'"
  obtains q where "(if free AND 1 = 1 then task_entry now k p else Inr p) = Inr q"
    and "task_loop now (drop_bit 1 free) (k + 1) q = Inr p'"
  using assms by (subst (asm) task_loop.simps) (auto split: sum.splits if_splits)

lemma task_entry_due:
  assumes run: "task_entry now i p = Inr q" and len: "i < length (basic_executors (fst p))"
    and due: "is_due now (basic_executors (fst p) ! i)"
  shows "\<exists>f d w'. callback (basic_executors (fst p) ! i) = Some f
    \<and> f (trigger_time (basic_executors (fst p) ! i)) (cb_arg (basic_executors (fst p) ! i))
        (fst (snd p)) = (d, w')
    \<and> snd (snd q) = snd (snd p) @ [\<lparr>call_index = i,
         call_time = trigger_time (basic_executors (fst p) ! i),
         call_arg = cb_arg (basic_executors (fst p) ! i), call_result = d\<rparr>]
    \<and> slot_fired i (basic_executors (fst p) ! i) d (fst p) (fst q)
    \<and> length (basic_executors (fst q)) = length (basic_executors (fst p))"
proof -
  obtain s w log where p: "p = (s, w, log)"
    by (cases p)
  define e where "e = basic_executors s ! i"
  from due p have d1: "token e \<noteq> INVALID_DEFERRED_TOKEN"
    and d2: "sint (TIMER_DIFF_32 (trigger_time e) now) \<le> 0"
    by (simp_all add: is_due_def e_def)
  show ?thesis
  proof (cases "callback e")
    case None
    with run p len d1 d2 show ?thesis
      by (simp add: task_entry_def e_def [symmetric])
  next
    case (Some f)
    obtain d w' where call: "f (trigger_time e) (cb_arg e) w = (d, w')"
      by (cases "f (trigger_time e) (cb_arg e) w")
    show ?thesis
    proof (cases "d > 0")
      case True
      with run p len d1 d2 Some call
      have "q = (s\<lparr>basic_executors := (basic_executors s)
            [i := e\<lparr>trigger_time := trigger_time e + d\<rparr>]\<rparr>, w',
          log @ [\<lparr>call_index = i, call_time = trigger_time e,
            call_arg = cb_arg e, call_result = d\<rparr>])"
        by (simp add: task_entry_def e_def [symmetric])
      with True p len Some call show ?thesis
        by (simp add: slot_fired_def e_def [symmetric])
    next
      case False
      with run p len d1 d2 Some call
      have "q = (s\<lparr>basic_executors_free := basic_executors_free s AND NOT (push_bit i 1),
            basic_executors := (basic_executors s)[i := e\<lparr>callback := None, cb_arg := 0\<rparr>]\<rparr>,
          w', log @ [\<lparr>call_index = i, call_time = trigger_time e,
            call_arg = cb_arg e, call_result = d\<rparr>])"
        by (simp add: task_entry_def e_def [symmetric])
      with False p len Some call show ?thesis
        by (simp add: slot_fired_def e_def [symmetric] bit_clear_slot)
    qed
  qed
qed

lemma slot_fired_before: "same_slot i p q \<Longrightarrow> slot_fired i e d (fst q) s' \<Longrightarrow> slot_fired i e d (fst p) s'"
  by (simp add: same_slot_def slot_fired_def)

lemma slot_fired_after: "slot_fired i e d s (fst q) \<Longrightarrow> same_slot i q r \<Longrightarrow> slot_fired i e d s (fst r)"
  by (simp add: same_slot_def slot_fired_def)

lemma task_loop_slot:
  assumes "task_loop now free k p = Inr p'" and "k \<le> i" and "bit free (i - k)"
    and "i < length (basic_executors (fst p))" and "is_due now (basic_executors (fst p) ! i)"
  shows "\<exists>f d wa wb. callback (basic_executors (fst p) ! i) = Some f
    \<and> f (trigger_time (basic_executors (fst p) ! i)) (cb_arg (basic_executors (fst p) ! i)) wa
        = (d, wb)
    \<and> calls_of i (snd (snd p')) = calls_of i (snd (snd p)) @ [\<lparr>call_index = i,
         call_time = trigger_time (basic_executors (fst p) ! i),
         call_arg = cb_arg (basic_executors (fst p) ! i), call_result = d\<rparr>]
    \<and> slot_fired i (basic_executors (fst p) ! i) d (fst p) (fst p')"
  using assms
proof (induction now free k p rule: task_loop.induct)
  case (1 now free k p)
  let ?e = "basic_executors (fst p) ! i"
  from "1.prems"(3) have nz: "free \<noteq> 0"
    by auto
  from nz "1.prems"(1) obtain q
    where step: "(if free AND 1 = 1 then task_entry now k p else Inr p) = Inr q"
      and rest: "task_loop now (drop_bit 1 free) (k + 1) q = Inr p'"
    by (rule task_loop_unfold)
  show ?case
  proof (cases "k = i")
    case True
    with "1.prems"(3) have "bit free 0"
      by simp
    with step True have ent: "task_entry now i p = Inr q"
      by (simp add: and_one_bit1)
    from task_entry_due [OF ent "1.prems"(4,5)] obtain f d w'
      where f: "callback ?e = Some f"
        and call: "f (trigger_time ?e) (cb_arg ?e) (fst (snd p)) = (d, w')"
        and log: "snd (snd q) = snd (snd p) @ [\<lparr>call_index = i, call_time = trigger_time ?e,
          call_arg = cb_arg ?e, call_result = d\<rparr>]"
        and fired: "slot_fired i ?e d (fst p) (fst q)"
      by blast
    from rest True have same: "same_slot i q p'"
      by (intro task_loop_frame [of now "drop_bit 1 free" "k + 1"]) simp_all
    from same log have "calls_of i (snd (snd p')) = calls_of i (snd (snd p))
        @ [\<lparr>call_index = i, call_time = trigger_time ?e, call_arg = cb_arg ?e, call_result = d\<rparr>]"
      by (simp add: same_slot_def calls_of_def)
    moreover from fired same have "slot_fired i ?e d (fst p) (fst p')"
      by (rule slot_fired_after)
    ultimately show ?thesis
      using f call by blast
  next
    case False
    with "1.prems"(2) have lt: "k + 1 \<le> i"
      by simp
    have same: "same_slot i p q"
    proof (cases "free AND 1 = 1")
      case True
      with step have "task_entry now k p = Inr q"
        by simp
      with False show ?thesis
        by (intro task_entry_frame [of now k]) simp_all
    next
      case False
      with step show ?thesis
        by (simp add: same_slot_refl)
    qed
    from lt have "i - k = Suc (i - (k + 1))"
      by simp
    with "1.prems"(3) have b: "bit (drop_bit 1 free) (i - (k + 1))"
      by (simp add: bit_drop_bit_eq)
    from same "1.prems"(4,5) have len: "i < length (basic_executors (fst q))"
      and due: "is_due now (basic_executors (fst q) ! i)"
      by (simp_all add: same_slot_def)
    from "1.IH" [OF nz step rest lt b len due] obtain f d wa wb
      where f: "callback (basic_executors (fst q) ! i) = Some f"
        and call: "f (trigger_time (basic_executors (fst q) ! i))
          (cb_arg (basic_executors (fst q) ! i)) wa = (d, wb)"
        and log: "calls_of i (snd (snd p')) = calls_of i (snd (snd q)) @ [\<lparr>call_index = i,
          call_time = trigger_time (basic_executors (fst q) ! i),
          call_arg = cb_arg (basic_executors (fst q) ! i), call_result = d\<rparr>]"
        and fired: "slot_fired i (basic_executors (fst q) ! i) d (fst q) (fst p')"
      by blast
    from same have eq: "basic_executors (fst q) ! i = ?e"
      and logeq: "calls_of i (snd (snd q)) = calls_of i (snd (snd p))"
      by (simp_all add: same_slot_def)
    from fired eq have "slot_fired i ?e d (fst q) (fst p')"
      by simp
    with same have "slot_fired i ?e d (fst p) (fst p')"
      by (rule slot_fired_before)
    with f call log eq logeq show ?thesis
      by auto
  qed
qed

lemma task_entry_returns:
  assumes "k < length (basic_executors (fst p))"
    and "is_due now (basic_executors (fst p) ! k) \<longrightarrow> callback (basic_executors (fst p) ! k) \<noteq> None"
  shows "\<exists>q. task_entry now k p = Inr q"
proof -
  obtain s w log where p: "p = (s, w, log)"
    by (cases p)
  define e where "e = basic_executors s ! k"
  show ?thesis
  proof (cases "is_due now e")
    case True
    with assms p obtain f where f: "callback e = Some f"
      by (auto simp: e_def)
    obtain d w' where "f (trigger_time e) (cb_arg e) w = (d, w')"
      by (cases "f (trigger_time e) (cb_arg e) w")
    with True f p assms(1) show ?thesis
      by (auto simp: task_entry_def is_due_def e_def [symmetric] Let_def)
  next
    case False
    with p assms(1) show ?thesis
      by (auto simp: task_entry_def is_due_def e_def [symmetric])
  qed
qed

lemma task_loop_returns:
  assumes "\<forall>j. bit free j \<longrightarrow> k + j < length (basic_executors (fst p))
      \<and> (is_due now (basic_executors (fst p) ! (k + j))
          \<longrightarrow> callback (basic_executors (fst p) ! (k + j)) \<noteq> None)"
  shows "\<exists>p'. task_loop now free k p = Inr p'"
  using assms
proof (induction now free k p rule: task_loop.induct)
  case (1 now free k p)
  show ?case
  proof (cases "free = 0")
    case True
    with task_loop_done [of now k p] show ?thesis
      by blast
  next
    case nz: False
    have "\<exists>q. (if free AND 1 = 1 then task_entry now k p else Inr p) = Inr q
        \<and> (\<forall>i. i \<noteq> k \<longrightarrow> same_slot i p q)"
    proof (cases "free AND 1 = 1")
      case True
      then have "bit free 0"
        by (simp add: and_one_bit1)
      with "1.prems" have "k < length (basic_executors (fst p))"
        and "is_due now (basic_executors (fst p) ! k)
          \<longrightarrow> callback (basic_executors (fst p) ! k) \<noteq> None"
        by force+
      then obtain q where q: "task_entry now k p = Inr q"
        using task_entry_returns by blast
      then have "\<forall>i. i \<noteq> k \<longrightarrow> same_slot i p q"
        by (blast intro: task_entry_frame)
      with True q show ?thesis
        by simp
    next
      case False
      then show ?thesis
        by (simp add: same_slot_refl)
    qed
    then obtain q where step: "(if free AND 1 = 1 then task_entry now k p else Inr p) = Inr q"
      and same: "\<forall>i. i \<noteq> k \<longrightarrow> same_slot i p q"
      by blast
    have "\<forall>j. bit (drop_bit 1 free) j \<longrightarrow> k + 1 + j < length (basic_executors (fst q))
      \<and> (is_due now (basic_executors (fst q) ! (k + 1 + j))
          \<longrightarrow> callback (basic_executors (fst q) ! (k + 1 + j)) \<noteq> None)"
    proof (intro allI impI)
      fix j
      assume "bit (drop_bit 1 free) j"
      then have "bit free (Suc j)"
        by (simp add: bit_drop_bit_eq)
      with "1.prems" have "k + Suc j < length (basic_executors (fst p))
        \<and> (is_due now (basic_executors (fst p) ! (k + Suc j))
          \<longrightarrow> callback (basic_executors (fst p) ! (k + Suc j)) \<noteq> None)"
        by blast
      moreover from same have "same_slot (k + Suc j) p q"
        by simp
      ultimately show "k + 1 + j < length (basic_executors (fst q))
        \<and> (is_due now (basic_executors (fst q) ! (k + 1 + j))
          \<longrightarrow> callback (basic_executors (fst q) ! (k + 1 + j)) \<noteq> None)"
        by (simp add: same_slot_def)
    qed
    from "1.IH" [OF nz step this] obtain p'
      where "task_loop now (drop_bit 1 free) (k + 1) q = Inr p'"
      by blast
    with nz step have "task_loop now free k p = Inr p'"
      by (subst task_loop.simps) simp
    then show ?thesis
      by blast
  qed
qed

text \<open>
  Where every due entry whose bit is set has a callback, and callbacks leave the table
  alone as those of the model do: on a reachable table, in a pass that is not throttled,
  an entry \<open>i\<close> that is due and whose bit is set is called exactly once, with its trigger
  time and its argument. If the callback returns \<open>d > 0\<close> the entry is afterwards as
  before except that \<open>d\<close> has been added to its trigger time, and its bit is still set. If
  it returns 0 the entry's callback and argument are cleared and its bit is clear, and a
  later \<open>defer_exec_advanced\<close> with a non-zero delay and a callback succeeds.
\<close>

lemma task_fires_due_slot:
  assumes "reachable s"
    and "sint (TIMER_DIFF_32 now (last_deferred_exec_check s)) > 0"
    and "\<forall>j<MAX_DEFERRED_EXECUTORS.
      bit (basic_executors_free s) j \<and> is_due now (basic_executors s ! j)
        \<longrightarrow> callback (basic_executors s ! j) \<noteq> None"
    and "i < MAX_DEFERRED_EXECUTORS" and "bit (basic_executors_free s) i"
    and "is_due now (basic_executors s ! i)"
  shows "\<exists>s' w' log f d wa. deferred_exec_advanced_task s w now = Inr (s', w', log)
    \<and> callback (basic_executors s ! i) = Some f
    \<and> d = fst (f (trigger_time (basic_executors s ! i)) (cb_arg (basic_executors s ! i)) wa)
    \<and> calls_of i log = [\<lparr>call_index = i, call_time = trigger_time (basic_executors s ! i),
          call_arg = cb_arg (basic_executors s ! i), call_result = d\<rparr>]
    \<and> (d > 0 \<longrightarrow>
          basic_executors s' ! i = (basic_executors s ! i)
            \<lparr>trigger_time := trigger_time (basic_executors s ! i) + d\<rparr>
          \<and> bit (basic_executors_free s') i)
    \<and> (d = 0 \<longrightarrow>
          basic_executors s' ! i = (basic_executors s ! i)\<lparr>callback := None, cb_arg := 0\<rparr>
          \<and> \<not> bit (basic_executors_free s') i
          \<and> (\<forall>t delay_ms cb arg. delay_ms \<noteq> 0 \<and> cb \<noteq> None
                \<longrightarrow> fst (defer_exec_advanced s' t delay_ms cb arg) \<noteq> INVALID_DEFERRED_TOKEN))"
proof -
  let ?F = "basic_executors_free s"
  let ?p = "(s\<lparr>last_deferred_exec_check := now\<rparr>, w, [] :: call list)"
  let ?e = "basic_executors s ! i"
  from assms(1) have inv: "table_inv s"
    by (rule reachable_inv)
  then have len: "length (basic_executors s) = MAX_DEFERRED_EXECUTORS"
    and bits: "\<And>j. bit ?F j \<Longrightarrow> j < MAX_DEFERRED_EXECUTORS"
    by (simp_all add: table_inv_def)
  from assms(2) have task: "deferred_exec_advanced_task s w now = task_loop now ?F 0 ?p"
    by (simp add: deferred_exec_advanced_task_def)
  have "\<forall>j. bit ?F j \<longrightarrow> 0 + j < length (basic_executors (fst ?p))
      \<and> (is_due now (basic_executors (fst ?p) ! (0 + j))
          \<longrightarrow> callback (basic_executors (fst ?p) ! (0 + j)) \<noteq> None)"
    using assms(3) bits len by simp
  then obtain p' where run: "task_loop now ?F 0 ?p = Inr p'"
    using task_loop_returns by blast
  obtain s' w' log where p': "p' = (s', w', log)"
    by (cases p')
  from assms(4-6) len have "bit ?F (i - 0)" and "i < length (basic_executors (fst ?p))"
    and "is_due now (basic_executors (fst ?p) ! i)"
    by simp_all
  from task_loop_slot [OF run _ this] obtain f d wa wb
    where f: "callback ?e = Some f"
      and call: "f (trigger_time ?e) (cb_arg ?e) wa = (d, wb)"
      and log: "calls_of i log = [\<lparr>call_index = i, call_time = trigger_time ?e,
        call_arg = cb_arg ?e, call_result = d\<rparr>]"
      and fired: "slot_fired i ?e d (fst ?p) s'"
    by (auto simp: p' calls_of_def)
  from task run p' have ret: "deferred_exec_advanced_task s w now = Inr (s', w', log)"
    by simp
  with assms(1) have "reachable s'"
    by (rule reach_task)
  then have inv': "table_inv s'"
    by (rule reachable_inv)
  have again: "fst (defer_exec_advanced s' t delay_ms cb arg) \<noteq> INVALID_DEFERRED_TOKEN"
    if "\<not> bit (basic_executors_free s') i" and "delay_ms \<noteq> 0" and "cb \<noteq> None"
    for t delay_ms cb arg
    using defer_exec_invalid_inv [OF inv', of t delay_ms cb arg] that assms(4) by blast
  from call have d: "d = fst (f (trigger_time ?e) (cb_arg ?e) wa)"
    by simp
  from fired assms(5) have pos: "d > 0 \<longrightarrow> basic_executors s' ! i
      = ?e\<lparr>trigger_time := trigger_time ?e + d\<rparr> \<and> bit (basic_executors_free s') i"
    by (simp add: slot_fired_def)
  from fired have zero: "d = 0 \<longrightarrow> basic_executors s' ! i = ?e\<lparr>callback := None, cb_arg := 0\<rparr>
      \<and> \<not> bit (basic_executors_free s') i"
    by (simp add: slot_fired_def)
  from ret f d log pos zero again show ?thesis
    by blast
qed

lemma task_fires_due_slot_example:
  "reachable booked1 \<and> reachable periodic1
   \<and> sint (TIMER_DIFF_32 10 (last_deferred_exec_check booked1)) > 0
   \<and> basic_executors_free booked1 = 1
   \<and> callback (basic_executors booked1 ! 0) \<noteq> None
   \<and> 0 < MAX_DEFERRED_EXECUTORS \<and> bit (basic_executors_free booked1) 0
   \<and> is_due 10 (basic_executors booked1 ! 0)
   \<and> is_due 10 (basic_executors periodic1 ! 0)
   \<and> \<not> bit (basic_executors_free fired1) 0
   \<and> callback (basic_executors fired1 ! 0) = None
   \<and> fst (defer_exec_advanced fired1 20 5 (Some period_cb) 0) \<noteq> INVALID_DEFERRED_TOKEN
   \<and> bit (basic_executors_free rearmed1) 0
   \<and> trigger_time (basic_executors rearmed1 ! 0) = 10 + 7"
proof -
  have h1: "sint (TIMER_DIFF_32 10 (last_deferred_exec_check booked1)) > 0"
    "\<forall>j<MAX_DEFERRED_EXECUTORS.
        bit (basic_executors_free booked1) j \<and> is_due 10 (basic_executors booked1 ! j)
          \<longrightarrow> callback (basic_executors booked1 ! j) \<noteq> None"
    "0 < MAX_DEFERRED_EXECUTORS" "bit (basic_executors_free booked1) 0"
    "is_due 10 (basic_executors booked1 ! 0)"
    by (simp_all add: booked1_entries is_due_def TIMER_DIFF_32_def config_defs bit_1_iff)
  have h2: "sint (TIMER_DIFF_32 10 (last_deferred_exec_check periodic1)) > 0"
    "\<forall>j<MAX_DEFERRED_EXECUTORS.
        bit (basic_executors_free periodic1) j \<and> is_due 10 (basic_executors periodic1 ! j)
          \<longrightarrow> callback (basic_executors periodic1 ! j) \<noteq> None"
    "0 < MAX_DEFERRED_EXECUTORS" "bit (basic_executors_free periodic1) 0"
    "is_due 10 (basic_executors periodic1 ! 0)"
    by (simp_all add: periodic1_entries is_due_def TIMER_DIFF_32_def config_defs bit_1_iff)
  have c1: "callback (basic_executors booked1 ! 0) = Some period_cb"
    "cb_arg (basic_executors booked1 ! 0) = 0"
    and c2: "callback (basic_executors periodic1 ! 0) = Some period_cb"
    "cb_arg (basic_executors periodic1 ! 0) = 7" "trigger_time (basic_executors periodic1 ! 0) = 10"
    by (simp_all add: booked1_entries periodic1_entries)
  from task_fires_due_slot [OF booked1_reachable h1, of 0] c1
  have a: "\<not> bit (basic_executors_free fired1) 0 \<and> callback (basic_executors fired1 ! 0) = None
    \<and> fst (defer_exec_advanced fired1 20 5 (Some period_cb) 0) \<noteq> INVALID_DEFERRED_TOKEN"
    by (auto simp: booked1_task fired1_entries [symmetric] period_cb_def)
  from task_fires_due_slot [OF periodic1_reachable h2, of 0] c2
  have b: "bit (basic_executors_free rearmed1) 0
    \<and> trigger_time (basic_executors rearmed1 ! 0) = 10 + 7"
    by (auto simp: periodic1_task period_cb_def)
  from a b h1(1,3-5) h2(5) c1(1) booked1_free booked1_reachable periodic1_reachable
  show ?thesis
    by simp
qed

subsection \<open>Throttling\<close>

text \<open>
  C8. When the signed difference between the clock and the last check is not positive,
  the task returns the table and the world as they are and calls nothing. A pass that
  returns is followed, at the same clock value, by a pass that changes nothing and calls
  nothing: the scan runs at most once in a millisecond.
\<close>

theorem task_throttled:
  "(sint (TIMER_DIFF_32 now (last_deferred_exec_check s)) \<le> 0
      \<longrightarrow> deferred_exec_advanced_task s w now = Inr (s, w, []))
   \<and> (deferred_exec_advanced_task s w now = Inr (s', w', log)
      \<longrightarrow> deferred_exec_advanced_task s' w2 now = Inr (s', w2, []))"
proof (intro conjI impI)
  assume "sint (TIMER_DIFF_32 now (last_deferred_exec_check s)) \<le> 0"
  then show "deferred_exec_advanced_task s w now = Inr (s, w, [])"
    by (simp add: deferred_exec_advanced_task_def)
next
  assume run: "deferred_exec_advanced_task s w now = Inr (s', w', log)"
  show "deferred_exec_advanced_task s' w2 now = Inr (s', w2, [])"
  proof (cases "sint (TIMER_DIFF_32 now (last_deferred_exec_check s)) > 0")
    case True
    with run have "task_loop now (basic_executors_free s) 0
        (s\<lparr>last_deferred_exec_check := now\<rparr>, w, []) = Inr (s', w', log)"
      by (simp add: deferred_exec_advanced_task_def)
    from task_loop_last_check [OF this] have "last_deferred_exec_check s' = now"
      by simp
    then show ?thesis
      by (simp add: deferred_exec_advanced_task_def TIMER_DIFF_32_def)
  next
    case False
    with run have "s' = s"
      by (simp add: deferred_exec_advanced_task_def)
    with False show ?thesis
      by (simp add: deferred_exec_advanced_task_def)
  qed
qed

theorem task_throttled_witness:
  "sint (TIMER_DIFF_32 0 (last_deferred_exec_check booked1)) \<le> 0
   \<and> deferred_exec_advanced_task booked1 7 0 = Inr (booked1, 7, [])
   \<and> deferred_exec_advanced_task booked1 7 5 = Inr (booked1\<lparr>last_deferred_exec_check := 5\<rparr>, 7, [])
   \<and> deferred_exec_advanced_task (booked1\<lparr>last_deferred_exec_check := 5\<rparr>) 8 5
        = Inr (booked1\<lparr>last_deferred_exec_check := 5\<rparr>, 8, [])"
proof -
  have a: "sint (TIMER_DIFF_32 0 (last_deferred_exec_check booked1)) \<le> 0"
    by (simp add: booked1_def run_defs config_defs)
  have b: "deferred_exec_advanced_task booked1 7 5
      = Inr (booked1\<lparr>last_deferred_exec_check := 5\<rparr>, 7, [])"
    by (simp add: booked1_def run_defs config_defs)
  from a b task_throttled [of 0 booked1 7]
    task_throttled [of 5 booked1 7 "booked1\<lparr>last_deferred_exec_check := 5\<rparr>" 7 "[]" 8]
  show ?thesis
    by simp
qed

subsection \<open>The index computed from a token\<close>

text \<open>
  C10. For every value of the token type the index computed by extend and cancel is
  below \<open>MAX_DEFERRED_EXECUTORS\<close>; on an array of the declared size neither operation
  reads outside it, whatever token the caller passes.
\<close>

theorem extend_cancel_index_in_bounds:
  "token_index tok < MAX_DEFERRED_EXECUTORS
   \<and> (length (basic_executors s) = MAX_DEFERRED_EXECUTORS
      \<longrightarrow> extend_deferred_exec_advanced s now tok delay_ms \<noteq> Inl OutOfBounds
        \<and> cancel_deferred_exec_advanced s tok \<noteq> Inl OutOfBounds)"
  using token_index_lt [of tok]
  by (simp add: extend_deferred_exec_advanced_def cancel_deferred_exec_advanced_def Let_def)

theorem extend_cancel_index_in_bounds_witness:
  "length (basic_executors booked1) = MAX_DEFERRED_EXECUTORS
   \<and> token_index 255 < MAX_DEFERRED_EXECUTORS
   \<and> extend_deferred_exec_advanced booked1 0 255 5 \<noteq> Inl OutOfBounds
   \<and> cancel_deferred_exec_advanced booked1 255 \<noteq> Inl OutOfBounds"
proof -
  have "length (basic_executors booked1) = MAX_DEFERRED_EXECUTORS"
    by (simp add: booked1_def run_defs config_defs)
  with extend_cancel_index_in_bounds [of 255 booked1 0 5] show ?thesis
    by simp
qed

subsection \<open>Tokens of the first bookings\<close>

text \<open>
  The tokens of all entries start at zero, and the token of entry \<open>i\<close> is only moved to
  the first value of band \<open>i\<close> once it has counted up to the band's last value. Until
  then entry 1 issues the tokens 1, 2, ... of band 0.
\<close>

text \<open>
  C1, at the failing input. Two bookings on the initial table: the bits of slots 0 and 1
  are set and both slots hold token 1.
\<close>

theorem two_live_slots_share_token:
  "reachable booked2
   \<and> bit (basic_executors_free booked2) 0 \<and> bit (basic_executors_free booked2) 1
   \<and> token (basic_executors booked2 ! 0) = token (basic_executors booked2 ! 1)"
  using booked2_reachable by (simp add: booked2_entries bit3_0 bit3_1)

text \<open>
  C2, at the failing input. With slot 0 occupied and slot 1 free, the booking claims
  slot 1 and returns token 1: it is below the first value of band 1, and the index
  computed from it is 0, not 1.
\<close>

theorem slot1_token_outside_band:
  "reachable booked1
   \<and> bit (basic_executors_free booked1) 0 \<and> \<not> bit (basic_executors_free booked1) 1
   \<and> defer_exec_advanced booked1 0 10 (Some period_cb) 0 = (1, booked2)
   \<and> bit (basic_executors_free booked2) 1
   \<and> token (basic_executors booked2 ! 1) = 1
   \<and> unat (1 :: deferred_token) < 1 * (MAX_TOKEN_VALUE div MAX_DEFERRED_EXECUTORS)
   \<and> token_index 1 = 0"
  using booked1_reachable
  by (simp add: booked2_entries booked1_entries defer_exec_advanced_def defer_exec_loop.simps claim_def
      new_token_def zero_executor_def Let_def token_index_def config_defs bit3_1)

subsection \<open>The task after a cancel\<close>

text \<open>
  C3, at the failing input. Cancelling token 1 succeeds and clears the callback of
  slot 0, whose bit and token stay; the pass of the task at the trigger time then calls
  through the cleared callback.
\<close>

theorem task_calls_cancelled_callback:
  "reachable cancelled1
   \<and> cancel_deferred_exec_advanced booked1 1 = Inr (True, cancelled1)
   \<and> callback (basic_executors cancelled1 ! 0) = None
   \<and> bit (basic_executors_free cancelled1) 0
   \<and> token (basic_executors cancelled1 ! 0) = 1
   \<and> deferred_exec_advanced_task cancelled1 0 10 = Inl NullCallback"
  using cancelled1_reachable
  by (simp add: cancelled1_entries booked1_entries cancel_deferred_exec_advanced_def token_index_def
      deferred_exec_advanced_task_def task_loop.simps task_entry_def TIMER_DIFF_32_def Let_def config_defs)

text \<open>
  C5, at the failing input. After two bookings and the cancel of token 1, slot 1 is
  occupied, holds a valid token and a callback, and is due at time 10. The pass at time
  10 is not throttled, and it ends in the call through the cleared callback of slot 0:
  the callback of slot 1 is not called and slot 1 is neither re-armed nor freed.
\<close>

theorem task_stops_before_due_slot:
  "reachable cancelled2
   \<and> cancel_deferred_exec_advanced booked2 1 = Inr (True, cancelled2)
   \<and> sint (TIMER_DIFF_32 10 (last_deferred_exec_check cancelled2)) > 0
   \<and> bit (basic_executors_free cancelled2) 1
   \<and> is_due 10 (basic_executors cancelled2 ! 1)
   \<and> callback (basic_executors cancelled2 ! 1) = Some period_cb
   \<and> deferred_exec_advanced_task cancelled2 0 10 = Inl NullCallback"
  using cancelled2_reachable booked2_cancel
  by (simp add: cancelled2_entries is_due_def bit3_1 deferred_exec_advanced_task_def
      task_loop.simps task_entry_def TIMER_DIFF_32_def Let_def config_defs)

end
